theory Spec2Isabelle
  imports Main "HOL-Library.Word" "HOL-Library.Monad_Syntax"
begin

section \<open>The kernel of rtos.c as HOL functions\<close>

text \<open>
  The module keeps one global aggregate, \<open>task_list\<close>, a function-local static flag
  (\<open>first_run\<close> of \<open>context_switch\<close>) and talks to three pieces of the processor: the
  stack pointer it reads in \<open>context_switch\<close>, the registers r0 and r7 it writes in
  \<open>PendSV_Handler\<close>, and the PendSV pending bit of \<open>SCB->ICSR\<close>.  All of them are
  fields of one state record that every function takes and returns.

  A result is an \<open>option\<close>: \<open>None\<close> stands for a run that has no defined result in C,
  which here is an access to \<open>tasks[i]\<close> or \<open>stack[i]\<close> with \<open>i\<close> outside the array, or a
  loop that does not come to an end.

  The heartbeat (\<open>init_is_alive\<close>, \<open>refresh_is_alive\<close>) and \<open>reload_systick\<close> write only
  GPIO and SysTick timer registers, which no function of the module reads; they are left
  out of the state.
\<close>

subsection \<open>Types\<close>

datatype task_state_e = S_READY | S_RUNNING | S_WAITING | S_SUSPENDED

datatype task_switch_type_e = kFromISR | kFromNormalExec

text \<open>
  Modelled from the spec: the enumeration \<open>rtos_autostart_e\<close> is declared in rtos.h, which
  is not among the sources.  The spec lists its two values, AUTO_START and
  START_SUSPENDED; rtos.c calls them \<open>kAutoStart\<close> and \<open>kStartSuspended\<close>.
\<close>

datatype rtos_autostart_e = kAutoStart | kStartSuspended

text \<open>
  Modelled from the spec: \<open>rtos_task_handle_t\<close> is declared in rtos.h, which is not among
  the sources.  The spec describes a handle as a non-negative index into the TCB array or
  the sentinel \<open>-1\<close>; it is an integer here, so every 8-bit task count converts to a
  handle without loss.
\<close>

type_synonym rtos_task_handle_t = int

definition INVALID_TASK :: rtos_task_handle_t where
  "INVALID_TASK = - 1"

definition STACK_FRAME_SIZE :: int where
  "STACK_FRAME_SIZE = 8"

definition STACK_PC_OFFSET :: int where
  "STACK_PC_OFFSET = 2"

definition STACK_PSR_OFFSET :: int where
  "STACK_PSR_OFFSET = 1"

definition STACK_PSR_DEFAULT :: "32 word" where
  "STACK_PSR_DEFAULT = 0x01000000"

text \<open>
  A pointer to \<open>uint32_t\<close> is the position of the word it points to, counted in 32-bit
  words, so that the C expressions \<open>p - 9\<close> and \<open>p + 9\<close> are integer arithmetic.  The
  null pointer of the zero-initialised structure is position 0.

  The tick type \<open>rtos_tick_t\<close> is declared in rtos.h as well; the record takes it as the
  type parameter \<open>'t\<close>, and the functions below work for a machine word of any width.
\<close>

record 't rtos_tcb_t =
  priority :: "8 word"
  state :: task_state_e
  sp :: int
  task_body :: "32 word"
  local_tick :: 't
  reserved :: "32 word list"
  stack :: "32 word list"

record 't task_list_t =
  nTasks :: "8 word"
  current_task :: rtos_task_handle_t
  next_task :: rtos_task_handle_t
  tasks :: "'t rtos_tcb_t list"
  global_tick :: 't

record 't kernel =
  task_list :: "'t task_list_t"
  first_run :: bool
  cpu_sp :: int
  cpu_r0 :: int
  cpu_r7 :: int
  pendsv_pending :: bool

text \<open>
  The constants of rtos_config.h (not among the sources) and the two addresses the linker
  fixes: where the stack array of the TCB in slot \<open>i\<close> begins, and the entry of the
  static function \<open>idle_task\<close>.
\<close>

record rtos_build =
  RTOS_MAX_NUMBER_OF_TASKS :: nat
  RTOS_STACK_SIZE :: nat
  RTOS_ENABLE_IS_ALIVE :: bool
  stack_base :: "nat \<Rightarrow> int"
  idle_task :: "32 word"

subsection \<open>The state at reset\<close>

text \<open>\<open>task_list = { 0 }\<close>: every field is zero, and state zero is \<open>S_READY\<close>.\<close>

definition tcb_zero :: "rtos_build \<Rightarrow> ('w::len) word rtos_tcb_t" where
  "tcb_zero cfg =
     \<lparr>priority = 0, state = S_READY, sp = 0, task_body = 0, local_tick = 0,
      reserved = replicate 10 0, stack = replicate (RTOS_STACK_SIZE cfg) 0\<rparr>"

definition task_list_zero :: "rtos_build \<Rightarrow> ('w::len) word task_list_t" where
  "task_list_zero cfg =
     \<lparr>nTasks = 0, current_task = 0, next_task = 0,
      tasks = replicate (RTOS_MAX_NUMBER_OF_TASKS cfg + 1) (tcb_zero cfg),
      global_tick = 0\<rparr>"

definition kernel_reset :: "rtos_build \<Rightarrow> int \<Rightarrow> ('w::len) word kernel" where
  "kernel_reset cfg msp =
     \<lparr>task_list = task_list_zero cfg, first_run = True, cpu_sp = msp,
      cpu_r0 = 0, cpu_r7 = 0, pendsv_pending = False\<rparr>"

subsection \<open>Access to the TCB array\<close>

text \<open>
  \<open>task_list.tasks[h].field = v\<close> for a handle \<open>h\<close>: defined only when \<open>h\<close> indexes the
  array.
\<close>

definition tcb_update ::
  "rtos_task_handle_t \<Rightarrow> ('t rtos_tcb_t \<Rightarrow> 't rtos_tcb_t) \<Rightarrow> 't kernel \<Rightarrow> 't kernel option" where
  "tcb_update h f k =
     (if 0 \<le> h \<and> h < int (length (tasks (task_list k)))
      then Some (k\<lparr>task_list := (task_list k)
                   \<lparr>tasks := (tasks (task_list k))[nat h := f (tasks (task_list k) ! nat h)]\<rparr>\<rparr>)
      else None)"

subsection \<open>rtos_create_task\<close>

definition rtos_create_task ::
  "rtos_build \<Rightarrow> 32 word \<Rightarrow> 8 word \<Rightarrow> rtos_autostart_e \<Rightarrow> ('w::len) word kernel
     \<Rightarrow> (rtos_task_handle_t \<times> 'w word kernel) option" where
  "rtos_create_task cfg body prio autostart k =
     (if RTOS_MAX_NUMBER_OF_TASKS cfg > unat (nTasks (task_list k)) then
        let n = unat (nTasks (task_list k));
            pc_slot = int (RTOS_STACK_SIZE cfg) - STACK_PC_OFFSET;
            psr_slot = int (RTOS_STACK_SIZE cfg) - STACK_PSR_OFFSET
        in do {
          k1 \<leftarrow> tcb_update (int n) (\<lambda>t. t\<lparr>priority := prio\<rparr>) k;
          k2 \<leftarrow> tcb_update (int n) (\<lambda>t. t\<lparr>local_tick := 0\<rparr>) k1;
          k3 \<leftarrow> tcb_update (int n) (\<lambda>t. t\<lparr>task_body := body\<rparr>) k2;
          k4 \<leftarrow> tcb_update (int n)
                  (\<lambda>t. t\<lparr>sp := stack_base cfg n
                                  + (int (RTOS_STACK_SIZE cfg) - 1 - STACK_FRAME_SIZE)\<rparr>) k3;
          k5 \<leftarrow> tcb_update (int n)
                  (\<lambda>t. t\<lparr>state := (if kStartSuspended = autostart then S_SUSPENDED
                                      else S_READY)\<rparr>) k4;
          k6 \<leftarrow> (if 0 \<le> pc_slot \<and> pc_slot < int (length (stack (tasks (task_list k5) ! n)))
                 then tcb_update (int n)
                        (\<lambda>t. t\<lparr>stack := (stack t)[nat pc_slot := body]\<rparr>) k5
                 else None);
          k7 \<leftarrow> (if 0 \<le> psr_slot \<and> psr_slot < int (length (stack (tasks (task_list k6) ! n)))
                 then tcb_update (int n)
                        (\<lambda>t. t\<lparr>stack := (stack t)[nat psr_slot := STACK_PSR_DEFAULT]\<rparr>) k6
                 else None);
          Some (int n, k7\<lparr>task_list := (task_list k7)\<lparr>nTasks := nTasks (task_list k7) + 1\<rparr>\<rparr>)
        }
      else Some (INVALID_TASK, k))"

subsection \<open>rtos_get_clock\<close>

definition rtos_get_clock :: "'t kernel \<Rightarrow> 't" where
  "rtos_get_clock k = global_tick (task_list k)"

subsection \<open>context_switch\<close>

text \<open>
  \<open>register uint32_t* sp asm("sp")\<close> reads the processor's stack pointer, the field
  \<open>cpu_sp\<close>.  \<open>SCB->ICSR |= SCB_ICSR_PENDSVSET_Msk\<close> pends the PendSV interrupt.
\<close>

definition context_switch :: "task_switch_type_e \<Rightarrow> 't kernel \<Rightarrow> 't kernel option" where
  "context_switch type k =
     do {
       k1 \<leftarrow> (if \<not> first_run k then
                 (if kFromNormalExec = type
                  then tcb_update (current_task (task_list k)) (\<lambda>t. t\<lparr>sp := cpu_sp k - 9\<rparr>) k
                  else tcb_update (current_task (task_list k)) (\<lambda>t. t\<lparr>sp := cpu_sp k + 9\<rparr>) k)
               else Some k);
       let k2 = k1\<lparr>first_run := False\<rparr>;
       let k3 = k2\<lparr>task_list := (task_list k2)\<lparr>current_task := next_task (task_list k2)\<rparr>\<rparr>;
       k4 \<leftarrow> tcb_update (current_task (task_list k3)) (\<lambda>t. t\<lparr>state := S_RUNNING\<rparr>) k3;
       Some (k4\<lparr>pendsv_pending := True\<rparr>)
     }"

subsection \<open>dispatcher\<close>

text \<open>
  The scan of the dispatcher reads the array and writes two locals: \<open>next_task\<close>, a
  handle, and \<open>highest\<close>, an \<open>int8_t\<close>.  The comparison \<open>highest < priority\<close> is made on
  \<open>int\<close> after the integer promotions, so \<open>highest\<close> is read signed (\<open>sint\<close>) and the
  \<open>uint8_t\<close> priority unsigned (\<open>uint\<close>).  The assignment \<open>highest = priority\<close> converts
  \<open>uint8_t\<close> to \<open>int8_t\<close>; the compilers for this processor keep the eight bits, which is
  what storing the same 8-bit word does.  The initial \<open>-1\<close> is the word \<open>0xFF\<close>.

  The counter \<open>index\<close> is a \<open>uint8_t\<close>; below \<open>nTasks\<close> its increment cannot wrap.
\<close>

function dispatcher_scan ::
  "'t task_list_t \<Rightarrow> 8 word \<Rightarrow> rtos_task_handle_t \<times> 8 word
     \<Rightarrow> (rtos_task_handle_t \<times> 8 word) option" where
  "dispatcher_scan ts index (nxt, highest) =
     (if index < nTasks ts then
        (if unat index < length (tasks ts) then
           (if sint highest < uint (priority (tasks ts ! unat index))
               \<and> (state (tasks ts ! unat index) = S_READY
                    \<or> state (tasks ts ! unat index) = S_RUNNING)
            then dispatcher_scan ts (index + 1)
                   (uint index, priority (tasks ts ! unat index))
            else dispatcher_scan ts (index + 1) (nxt, highest))
         else None)
      else Some (nxt, highest))"
  by pat_completeness auto
termination
proof (relation "measure (\<lambda>(ts, index, acc). unat (nTasks ts) - unat index)")
  show "wf (measure (\<lambda>(ts, index, acc). unat (nTasks ts) - unat index))"
    by simp
next
  fix ts :: "'t task_list_t" and index :: "8 word" and nxt :: int and highest :: "8 word"
  assume lt: "index < nTasks ts"
  then have below: "unat index < unat (nTasks ts)"
    by (simp add: word_less_nat_alt)
  have "unat (nTasks ts) < 256"
    using unsigned_less [of "nTasks ts", where ?'a = nat] by simp
  moreover have "unat (index + 1) = (unat index + 1) mod 256"
    by (simp add: unat_word_ariths)
  ultimately have "unat (index + 1) = unat index + 1"
    using below by simp
  with below have "unat (nTasks ts) - unat (index + 1) < unat (nTasks ts) - unat index"
    by arith
  then show "((ts, index + 1, uint index, priority (tasks ts ! unat index)),
               (ts, index, nxt, highest))
               \<in> measure (\<lambda>(ts, index, acc). unat (nTasks ts) - unat index)"
    and "((ts, index + 1, nxt, highest), (ts, index, nxt, highest))
               \<in> measure (\<lambda>(ts, index, acc). unat (nTasks ts) - unat index)"
    by simp_all
qed

definition dispatcher :: "task_switch_type_e \<Rightarrow> 't kernel \<Rightarrow> 't kernel option" where
  "dispatcher type k =
     do {
       (nxt, highest) \<leftarrow> dispatcher_scan (task_list k) 0 (INVALID_TASK, - 1);
       if nxt \<noteq> current_task (task_list k)
       then context_switch type (k\<lparr>task_list := (task_list k)\<lparr>next_task := nxt\<rparr>\<rparr>)
       else Some k
     }"

subsection \<open>rtos_delay, rtos_suspend_task, rtos_activate_task\<close>

definition rtos_delay :: "'t \<Rightarrow> 't kernel \<Rightarrow> 't kernel option" where
  "rtos_delay ticks k =
     do {
       k1 \<leftarrow> tcb_update (current_task (task_list k)) (\<lambda>t. t\<lparr>state := S_WAITING\<rparr>) k;
       k2 \<leftarrow> tcb_update (current_task (task_list k1)) (\<lambda>t. t\<lparr>local_tick := ticks\<rparr>) k1;
       dispatcher kFromNormalExec k2
     }"

definition rtos_suspend_task :: "'t kernel \<Rightarrow> 't kernel option" where
  "rtos_suspend_task k =
     do {
       k1 \<leftarrow> tcb_update (current_task (task_list k)) (\<lambda>t. t\<lparr>state := S_SUSPENDED\<rparr>) k;
       dispatcher kFromNormalExec k1
     }"

definition rtos_activate_task :: "rtos_task_handle_t \<Rightarrow> 't kernel \<Rightarrow> 't kernel option" where
  "rtos_activate_task task k =
     do {
       k1 \<leftarrow> tcb_update task (\<lambda>t. t\<lparr>state := S_READY\<rparr>) k;
       dispatcher kFromNormalExec k1
     }"

subsection \<open>activate_waiting_tasks\<close>

text \<open>
  The body of the loop for one slot: a waiting task has its counter decremented (the
  subtraction wraps, as the C type does) and becomes ready when the counter is then zero.
\<close>

definition wake_slot :: "('w::len) word rtos_tcb_t \<Rightarrow> 'w word rtos_tcb_t" where
  "wake_slot t =
     (if state t = S_WAITING then
        (let t1 = t\<lparr>local_tick := local_tick t - 1\<rparr>
         in if local_tick t1 = 0 then t1\<lparr>state := S_READY\<rparr> else t1)
      else t)"

text \<open>
  The loop \<open>for (uint8_t task_to_check = 0; task_to_check <= task_list.nTasks;
  task_to_check++)\<close>.  The counter has eight bits and its increment wraps, so the loop
  does not end when \<open>nTasks\<close> is 255: it is a partial function.
\<close>

partial_function (option) activate_waiting_loop ::
  "8 word \<Rightarrow> ('w::len) word kernel \<Rightarrow> 'w word kernel option" where
  "activate_waiting_loop task_to_check k =
     (if task_to_check \<le> nTasks (task_list k) then
        (case tcb_update (uint task_to_check) wake_slot k of
           None \<Rightarrow> None
         | Some k1 \<Rightarrow> activate_waiting_loop (task_to_check + 1) k1)
      else Some k)"

definition activate_waiting_tasks :: "('w::len) word kernel \<Rightarrow> 'w word kernel option" where
  "activate_waiting_tasks k = activate_waiting_loop 0 k"

subsection \<open>The interrupt handlers\<close>

definition SysTick_Handler :: "('w::len) word kernel \<Rightarrow> 'w word kernel option" where
  "SysTick_Handler k =
     do {
       let k1 = k\<lparr>task_list := (task_list k)\<lparr>global_tick := global_tick (task_list k) + 1\<rparr>\<rparr>;
       k2 \<leftarrow> activate_waiting_tasks k1;
       dispatcher kFromISR k2
     }"

text \<open>
  \<open>SCB->ICSR |= SCB_ICSR_PENDSVCLR_Msk\<close> clears the pending bit; the saved stack pointer
  of the current task goes to r0 and from there to r7.
\<close>

definition PendSV_Handler :: "'t kernel \<Rightarrow> 't kernel option" where
  "PendSV_Handler k =
     (let k1 = k\<lparr>pendsv_pending := False\<rparr>;
          h = current_task (task_list k1)
      in if 0 \<le> h \<and> h < int (length (tasks (task_list k1)))
         then (let k2 = k1\<lparr>cpu_r0 := sp (tasks (task_list k1) ! nat h)\<rparr>
               in Some (k2\<lparr>cpu_r7 := cpu_r0 k2\<rparr>))
         else None)"

subsection \<open>rtos_start_scheduler\<close>

text \<open>
  The function ends in \<open>for (;;)\<close> and never returns to its caller; from then on only
  the interrupt handlers run.  The model gives the state in which that loop is entered.
  Everything before the timer is started stands between \<open>#ifdef RTOS_ENABLE_IS_ALIVE\<close>
  and \<open>#endif\<close>.
\<close>

definition rtos_start_scheduler ::
  "rtos_build \<Rightarrow> ('w::len) word kernel \<Rightarrow> 'w word kernel option" where
  "rtos_start_scheduler cfg k =
     (if RTOS_ENABLE_IS_ALIVE cfg then
        do {
          let k1 = k\<lparr>task_list := (task_list k)\<lparr>global_tick := 0\<rparr>\<rparr>;
          let k2 = k1\<lparr>task_list := (task_list k1)\<lparr>current_task := INVALID_TASK\<rparr>\<rparr>;
          (retval, k3) \<leftarrow> rtos_create_task cfg (idle_task cfg) 0 kAutoStart k2;
          Some k3
        }
      else Some k)"

section \<open>Notions used in the statements\<close>

text \<open>A handle that indexes the TCB array, and the TCB it selects.\<close>

definition is_slot :: "'t kernel \<Rightarrow> rtos_task_handle_t \<Rightarrow> bool" where
  "is_slot k h \<longleftrightarrow> 0 \<le> h \<and> h < int (length (tasks (task_list k)))"

definition tcb :: "'t kernel \<Rightarrow> rtos_task_handle_t \<Rightarrow> 't rtos_tcb_t" where
  "tcb k h = tasks (task_list k) ! nat h"

text \<open>The tasks the dispatcher considers: those that are ready or running.\<close>

definition runnable :: "'t rtos_tcb_t \<Rightarrow> bool" where
  "runnable t \<longleftrightarrow> state t = S_READY \<or> state t = S_RUNNING"

text \<open>The test of the scan at one slot, as the \<open>if\<close> of the loop body has it.\<close>

definition scan_takes :: "'t task_list_t \<Rightarrow> 8 word \<Rightarrow> 8 word \<Rightarrow> bool" where
  "scan_takes ts index highest \<longleftrightarrow>
     sint highest < uint (priority (tasks ts ! unat index))
     \<and> (state (tasks ts ! unat index) = S_READY \<or> state (tasks ts ! unat index) = S_RUNNING)"


text \<open>
  The invariant of the spec, "at most one task has state RUNNING", and the stronger
  property that no task other than \<open>current_task\<close> is running.
\<close>

definition running_slots :: "'t kernel \<Rightarrow> nat list" where
  "running_slots k =
     filter (\<lambda>i. state (tasks (task_list k) ! i) = S_RUNNING)
       [0..<length (tasks (task_list k))]"

definition at_most_one_running :: "'t kernel \<Rightarrow> bool" where
  "at_most_one_running k \<longleftrightarrow> length (running_slots k) \<le> 1"

definition only_current_running :: "'t kernel \<Rightarrow> bool" where
  "only_current_running k \<longleftrightarrow>
     list_all (\<lambda>i. int i = current_task (task_list k)) (running_slots k)"

text \<open>
  What the operations need from the state they are called in.  A store is laid out for a
  build when the array has the configured number of slots plus one and every stack has
  the configured size.  It is in service when the task count fits the array and
  \<open>current_task\<close> indexes it.  A handle is created when it is below \<open>nTasks\<close>.
  \<open>other_runnable\<close>: some created task other than the current one is ready or running
  (the idle task, in a system that has one).
\<close>

definition laid_out :: "rtos_build \<Rightarrow> 't kernel \<Rightarrow> bool" where
  "laid_out cfg k \<longleftrightarrow>
     length (tasks (task_list k)) = RTOS_MAX_NUMBER_OF_TASKS cfg + 1
     \<and> list_all (\<lambda>t. length (stack t) = RTOS_STACK_SIZE cfg) (tasks (task_list k))
     \<and> 2 \<le> RTOS_STACK_SIZE cfg"

definition other_runnable :: "'t kernel \<Rightarrow> bool" where
  "other_runnable k \<longleftrightarrow>
     list_ex (\<lambda>j. int j \<noteq> current_task (task_list k) \<and> runnable (tasks (task_list k) ! j))
       [0..<unat (nTasks (task_list k))]"

definition created :: "'t kernel \<Rightarrow> rtos_task_handle_t \<Rightarrow> bool" where
  "created k h \<longleftrightarrow> 0 \<le> h \<and> h < uint (nTasks (task_list k))"

definition in_service :: "'t kernel \<Rightarrow> bool" where
  "in_service k \<longleftrightarrow>
     unat (nTasks (task_list k)) \<le> length (tasks (task_list k))
     \<and> is_slot k (current_task (task_list k))"

subsection \<open>The wake-up pass of the spec\<close>



text \<open>The slots \<open>[lo, hi)\<close> of an array after the loop body has run on each of them.\<close>

definition wake_range :: "nat \<Rightarrow> nat \<Rightarrow> ('w::len) word rtos_tcb_t list \<Rightarrow> 'w word rtos_tcb_t list" where
  "wake_range lo hi xs =
     map (\<lambda>j. if lo \<le> j \<and> j < hi then wake_slot (xs ! j) else xs ! j) [0..<length xs]"


subsection \<open>Runs of the kernel\<close>

text \<open>
  The steps that can be observed from outside: a call of the API by the running task, a
  run of the tick handler, a run of the deferred-switch handler.  A system is brought up
  by creating its tasks in order and starting the scheduler; the stack pointer at reset
  is put at position 4096.
\<close>

declare activate_waiting_loop.simps [code]

datatype 't kernel_step =
    Call_delay 't
  | Call_suspend
  | Call_activate rtos_task_handle_t
  | Tick
  | Deferred_switch

fun step :: "('w::len) word kernel_step \<Rightarrow> 'w word kernel \<Rightarrow> 'w word kernel option" where
  "step (Call_delay ticks) k = rtos_delay ticks k"
| "step Call_suspend k = rtos_suspend_task k"
| "step (Call_activate h) k = rtos_activate_task h k"
| "step Tick k = SysTick_Handler k"
| "step Deferred_switch k = PendSV_Handler k"

fun run :: "('w::len) word kernel_step list \<Rightarrow> 'w word kernel \<Rightarrow> 'w word kernel option" where
  "run [] k = Some k"
| "run (x # xs) k = Option.bind (step x k) (run xs)"

fun create_all ::
  "rtos_build \<Rightarrow> (32 word \<times> 8 word \<times> rtos_autostart_e) list \<Rightarrow> ('w::len) word kernel
     \<Rightarrow> (rtos_task_handle_t list \<times> 'w word kernel) option" where
  "create_all cfg [] k = Some ([], k)"
| "create_all cfg ((body, prio, autostart) # rest) k =
     (case rtos_create_task cfg body prio autostart k of
        None \<Rightarrow> None
      | Some (h, k1) \<Rightarrow>
          (case create_all cfg rest k1 of
             None \<Rightarrow> None
           | Some (hs, k2) \<Rightarrow> Some (h # hs, k2)))"

definition boot ::
  "rtos_build \<Rightarrow> (32 word \<times> 8 word \<times> rtos_autostart_e) list
     \<Rightarrow> (rtos_task_handle_t list \<times> ('w::len) word kernel) option" where
  "boot cfg specs =
     (case create_all cfg specs (kernel_reset cfg 4096) of
        None \<Rightarrow> None
      | Some (hs, k) \<Rightarrow> map_option (Pair hs) (rtos_start_scheduler cfg k))"


definition boot_and_run ::
  "rtos_build \<Rightarrow> (32 word \<times> 8 word \<times> rtos_autostart_e) list \<Rightarrow> ('w::len) word kernel_step list
     \<Rightarrow> 'w word kernel option" where
  "boot_and_run cfg specs steps =
     (case boot cfg specs of None \<Rightarrow> None | Some (hs, k) \<Rightarrow> run steps k)"

text \<open>
  A view of the fields that scheduling depends on: priority, state and local tick of each
  slot, then \<open>nTasks\<close> and \<open>current_task\<close>.
\<close>

definition summary ::
  "'t kernel \<Rightarrow> (8 word \<times> task_state_e \<times> 't) list \<times> 8 word \<times> rtos_task_handle_t" where
  "summary k =
     (map (\<lambda>t. (priority t, state t, local_tick t)) (tasks (task_list k)),
      nTasks (task_list k), current_task (task_list k))"


definition entries :: "'t kernel \<Rightarrow> 32 word list" where
  "entries k = map task_body (tasks (task_list k))"

text \<open>Builds used in the examples: room for two and for three user tasks.\<close>

definition board :: rtos_build where
  "board = \<lparr>RTOS_MAX_NUMBER_OF_TASKS = 2, RTOS_STACK_SIZE = 10, RTOS_ENABLE_IS_ALIVE = True,
            stack_base = (\<lambda>i. 64 + 32 * int i), idle_task = 0x400\<rparr>"

definition board3 :: rtos_build where
  "board3 = \<lparr>RTOS_MAX_NUMBER_OF_TASKS = 3, RTOS_STACK_SIZE = 10, RTOS_ENABLE_IS_ALIVE = True,
            stack_base = (\<lambda>i. 64 + 32 * int i), idle_task = 0x400\<rparr>"


text \<open>
  A kernel in service, used in the examples: the state of the three-task build after one
  user task of priority 2 was created, the scheduler was started, and the first tick and
  its deferred switch have run.  \<open>demo_switch\<close> is that state at the moment a switch to
  the idle task in slot 1 has been decided, with the stack pointer at position 40.
\<close>

definition demo_tcb ::
  "8 word \<Rightarrow> task_state_e \<Rightarrow> int \<Rightarrow> 32 word \<Rightarrow> 32 word \<Rightarrow> 32 word rtos_tcb_t" where
  "demo_tcb prio st p body ticks =
     \<lparr>priority = prio, state = st, sp = p, task_body = body, local_tick = ticks,
      reserved = replicate 10 0, stack = replicate 8 0 @ [body, STACK_PSR_DEFAULT]\<rparr>"

definition demo_kernel :: "32 word kernel" where
  "demo_kernel =
     \<lparr>task_list =
        \<lparr>nTasks = 2, current_task = 0, next_task = 0,
         tasks = [demo_tcb 2 S_RUNNING 65 0x100 0, demo_tcb 0 S_READY 97 0x400 0,
                  tcb_zero board3, tcb_zero board3],
         global_tick = 1\<rparr>,
      first_run = False, cpu_sp = 4096, cpu_r0 = 65, cpu_r7 = 65, pendsv_pending = False\<rparr>"

definition demo_switch :: "32 word kernel" where
  "demo_switch = demo_kernel\<lparr>task_list := (task_list demo_kernel)\<lparr>next_task := 1\<rparr>, cpu_sp := 40\<rparr>"

text \<open>
  A second kernel in service: tasks of priority 1 and 2 and the idle task; the task of
  priority 2 has called \<open>rtos_delay 1\<close> and the task of priority 1 runs.
\<close>

definition demo_preempt :: "32 word kernel" where
  "demo_preempt =
     \<lparr>task_list =
        \<lparr>nTasks = 3, current_task = 0, next_task = 0,
         tasks = [demo_tcb 1 S_RUNNING 65 0x100 0, demo_tcb 2 S_WAITING 4087 0x200 1,
                  demo_tcb 0 S_READY 129 0x400 0, tcb_zero board3],
         global_tick = 1\<rparr>,
      first_run = False, cpu_sp = 4096, cpu_r0 = 65, cpu_r7 = 65, pendsv_pending = False\<rparr>"




section \<open>Facts about the building blocks\<close>

subsection \<open>The scan of the dispatcher\<close>

declare dispatcher_scan.simps [simp del]

lemma unat_index_Suc:
  "(index :: 8 word) < n \<Longrightarrow> unat (index + 1) = Suc (unat index)"
proof -
  assume lt: "index < n"
  then have below: "unat index < unat n"
    by (simp add: word_less_nat_alt)
  have "unat n < 256"
    using unsigned_less [of n, where ?'a = nat] by simp
  moreover have "unat (index + 1) = (unat index + 1) mod 256"
    by (simp add: unat_word_ariths)
  ultimately show ?thesis
    using below by simp
qed

lemma uint_index_Suc:
  "(index :: 8 word) < n \<Longrightarrow> uint (index + 1) = uint index + 1"
proof -
  assume "index < n"
  then have "unat (index + 1) = Suc (unat index)"
    by (rule unat_index_Suc)
  then have "int (unat (index + 1)) = int (Suc (unat index))"
    by (rule arg_cong)
  then show ?thesis
    by simp
qed

lemma dispatcher_scan_stop:
  "\<not> index < nTasks ts \<Longrightarrow> dispatcher_scan ts index (nxt, highest) = Some (nxt, highest)"
  by (simp add: dispatcher_scan.simps [of ts index])

lemma dispatcher_scan_outside:
  "index < nTasks ts \<Longrightarrow> \<not> unat index < length (tasks ts) \<Longrightarrow>
     dispatcher_scan ts index (nxt, highest) = None"
  by (simp add: dispatcher_scan.simps [of ts index])

lemma dispatcher_scan_take:
  "index < nTasks ts \<Longrightarrow> unat index < length (tasks ts) \<Longrightarrow> scan_takes ts index highest \<Longrightarrow>
     dispatcher_scan ts index (nxt, highest)
       = dispatcher_scan ts (index + 1) (uint index, priority (tasks ts ! unat index))"
  unfolding scan_takes_def by (simp add: dispatcher_scan.simps [of ts index])

lemma dispatcher_scan_skip:
  "index < nTasks ts \<Longrightarrow> unat index < length (tasks ts) \<Longrightarrow> \<not> scan_takes ts index highest \<Longrightarrow>
     dispatcher_scan ts index (nxt, highest) = dispatcher_scan ts (index + 1) (nxt, highest)"
  unfolding scan_takes_def by (auto simp add: dispatcher_scan.simps [of ts index])

lemma scan_takes_first:
  "scan_takes ts index (- 1) = runnable (tasks ts ! unat index)"
proof -
  have "(- 1 :: int) < uint (priority (tasks ts ! unat index))"
    using uint_nonnegative [of "priority (tasks ts ! unat index)"] by arith
  then show ?thesis
    by (simp add: scan_takes_def runnable_def)
qed

lemma scan_takes_runnable:
  "scan_takes ts index highest \<Longrightarrow> runnable (tasks ts ! unat index)"
  by (simp add: scan_takes_def runnable_def)

lemma dispatcher_scan_total:
  "unat (nTasks ts) \<le> length (tasks ts) \<Longrightarrow> dispatcher_scan ts index acc \<noteq> None"
proof (induction ts index acc rule: dispatcher_scan.induct)
  case (1 ts index nxt highest)
  show ?case
  proof (cases "index < nTasks ts")
    case False
    then show ?thesis
      by (simp add: dispatcher_scan_stop)
  next
    case True
    then have "unat index < unat (nTasks ts)"
      by (simp add: word_less_nat_alt)
    with "1.prems" have inb: "unat index < length (tasks ts)"
      by simp
    show ?thesis
    proof (cases "scan_takes ts index highest")
      case True
      with \<open>index < nTasks ts\<close> inb "1.IH"(1) "1.prems" show ?thesis
        by (simp add: dispatcher_scan_take scan_takes_def)
    next
      case False
      with \<open>index < nTasks ts\<close> inb "1.IH"(2) "1.prems" show ?thesis
        by (simp add: dispatcher_scan_skip scan_takes_def)
    qed
  qed
qed

lemma dispatcher_scan_result:
  "dispatcher_scan ts index acc = Some res \<Longrightarrow>
     res = acc
     \<or> (uint index \<le> fst res \<and> fst res < uint (nTasks ts)
          \<and> runnable (tasks ts ! nat (fst res)) \<and> snd res = priority (tasks ts ! nat (fst res)))"
proof (induction ts index acc rule: dispatcher_scan.induct)
  case (1 ts index nxt highest)
  show ?case
  proof (cases "index < nTasks ts")
    case False
    with "1.prems" show ?thesis
      by (simp add: dispatcher_scan_stop)
  next
    case True
    then have usuc: "uint (index + 1) = uint index + 1"
      by (rule uint_index_Suc)
    from True have ulin: "uint index < uint (nTasks ts)"
      by (simp add: word_less_def)
    show ?thesis
    proof (cases "unat index < length (tasks ts)")
      case False
      with True "1.prems" show ?thesis
        by (simp add: dispatcher_scan_outside)
    next
      case inb: True
      show ?thesis
      proof (cases "scan_takes ts index highest")
        case taken: True
        with True inb "1.prems"
        have "dispatcher_scan ts (index + 1) (uint index, priority (tasks ts ! unat index))
                = Some res"
          by (simp add: dispatcher_scan_take)
        from "1.IH"(1) [OF True inb taken [unfolded scan_takes_def] this] usuc ulin
          scan_takes_runnable [OF taken]
        show ?thesis
          by (auto simp: nat_uint_eq)
      next
        case skipped: False
        with True inb "1.prems"
        have "dispatcher_scan ts (index + 1) (nxt, highest) = Some res"
          by (simp add: dispatcher_scan_skip)
        from "1.IH"(2) [OF True inb skipped [unfolded scan_takes_def] this] usuc show ?thesis
          by auto
      qed
    qed
  qed
qed

lemma dispatcher_scan_finds:
  "dispatcher_scan ts index (nxt, - 1) = Some res \<Longrightarrow>
   unat index \<le> j \<Longrightarrow> j < unat (nTasks ts) \<Longrightarrow> runnable (tasks ts ! j) \<Longrightarrow>
     uint index \<le> fst res \<and> fst res < uint (nTasks ts)"
proof (induction "unat (nTasks ts) - unat index" arbitrary: index)
  case 0
  then show ?case
    by simp
next
  case (Suc d)
  from Suc.prems have lt: "index < nTasks ts"
    by (simp add: word_less_nat_alt)
  then have suc: "unat (index + 1) = Suc (unat index)"
    by (rule unat_index_Suc)
  from lt have usuc: "uint (index + 1) = uint index + 1"
    by (rule uint_index_Suc)
  from lt have ulin: "uint index < uint (nTasks ts)"
    by (simp add: word_less_def)
  show ?case
  proof (cases "unat index < length (tasks ts)")
    case False
    with lt Suc.prems show ?thesis
      by (simp add: dispatcher_scan_outside)
  next
    case inb: True
    show ?thesis
    proof (cases "runnable (tasks ts ! unat index)")
      case True
      then have "scan_takes ts index (- 1)"
        by (simp add: scan_takes_first)
      with lt inb Suc.prems
      have "dispatcher_scan ts (index + 1) (uint index, priority (tasks ts ! unat index))
                = Some res"
        by (simp add: dispatcher_scan_take)
      from dispatcher_scan_result [OF this] usuc ulin show ?thesis
        by auto
    next
      case False
      then have "\<not> scan_takes ts index (- 1)"
        by (simp add: scan_takes_first)
      with lt inb Suc.prems
      have rest: "dispatcher_scan ts (index + 1) (nxt, - 1) = Some res"
        by (simp add: dispatcher_scan_skip)
      from False Suc.prems have "unat index \<noteq> j"
        by auto
      with Suc.prems suc have le: "unat (index + 1) \<le> j"
        by simp
      from Suc.hyps(2) suc have "d = unat (nTasks ts) - unat (index + 1)"
        by simp
      from Suc.hyps(1) [OF this rest le Suc.prems(3,4)] usuc show ?thesis
        by simp
    qed
  qed
qed

text \<open>
  What the scan does get right.  While every ready or running task has a priority of at
  most 127, which the signed 8-bit \<open>highest\<close> can hold, the scan started by the
  dispatcher ends on a ready or running task whose priority no other such task exceeds,
  and every such task in a lower slot has a strictly smaller priority.  When the task
  found is the current one the dispatcher returns the state as it is.
\<close>

lemma sint_small_priority:
  "uint (p :: 8 word) \<le> 127 \<Longrightarrow> sint p = uint p"
proof -
  assume small: "uint p \<le> 127"
  have "(- (2 ^ 7) :: int) \<le> 0"
    by simp
  also have "0 \<le> uint p"
    by (rule uint_nonnegative)
  finally have "- (2 ^ 7) \<le> uint p" .
  moreover from small have "uint p < 2 ^ 7"
    by simp
  ultimately have "signed_take_bit 7 (uint p) = uint p"
    by (rule signed_take_bit_int_eq_self)
  then show ?thesis
    by (simp add: sint_uint)
qed

lemma dispatcher_scan_best:
  assumes run: "dispatcher_scan ts index acc = Some res"
    and small: "\<forall>j < unat (nTasks ts). runnable (tasks ts ! j) \<longrightarrow>
                  uint (priority (tasks ts ! j)) \<le> 127"
    and seen: "\<forall>j < unat index. runnable (tasks ts ! j) \<longrightarrow>
                  uint (priority (tasks ts ! j)) \<le> sint (snd acc)"
  shows "(\<forall>j < unat (nTasks ts). runnable (tasks ts ! j) \<longrightarrow>
            uint (priority (tasks ts ! j)) \<le> sint (snd res))
     \<and> (res = acc
        \<or> (\<forall>j < nat (fst res). runnable (tasks ts ! j) \<longrightarrow>
              uint (priority (tasks ts ! j)) < sint (snd res)))"
  using assms
proof (induction ts index acc rule: dispatcher_scan.induct)
  case (1 ts index nxt highest)
  show ?case
  proof (cases "index < nTasks ts")
    case False
    then have "unat (nTasks ts) \<le> unat index"
      by (simp add: word_less_nat_alt)
    moreover from False "1.prems"(1) have "res = (nxt, highest)"
      by (simp add: dispatcher_scan_stop)
    ultimately show ?thesis
      using "1.prems"(3) by auto
  next
    case True
    then have suc: "unat (index + 1) = Suc (unat index)"
      by (rule unat_index_Suc)
    from True have below: "unat index < unat (nTasks ts)"
      by (simp add: word_less_nat_alt)
    show ?thesis
    proof (cases "unat index < length (tasks ts)")
      case False
      with True "1.prems"(1) show ?thesis
        by (simp add: dispatcher_scan_outside)
    next
      case inb: True
      let ?p = "priority (tasks ts ! unat index)"
      show ?thesis
      proof (cases "scan_takes ts index highest")
        case taken: True
        then have ready: "runnable (tasks ts ! unat index)"
          by (rule scan_takes_runnable)
        with "1.prems"(2) below have "uint ?p \<le> 127"
          by simp
        then have same: "sint ?p = uint ?p"
          by (rule sint_small_priority)
        from taken have more: "sint highest < uint ?p"
          by (simp add: scan_takes_def)
        from True inb taken "1.prems"(1)
        have rest: "dispatcher_scan ts (index + 1) (uint index, ?p) = Some res"
          by (simp add: dispatcher_scan_take)
        have seen': "\<forall>j < unat (index + 1). runnable (tasks ts ! j) \<longrightarrow>
                  uint (priority (tasks ts ! j)) \<le> sint (snd (uint index, ?p))"
          using "1.prems"(3) more same suc by (auto simp: less_Suc_eq)
        from "1.IH"(1) [OF True inb taken [unfolded scan_takes_def] rest "1.prems"(2) seen']
        have all: "\<forall>j < unat (nTasks ts). runnable (tasks ts ! j) \<longrightarrow>
                     uint (priority (tasks ts ! j)) \<le> sint (snd res)"
          and first: "res = (uint index, ?p)
             \<or> (\<forall>j < nat (fst res). runnable (tasks ts ! j) \<longrightarrow>
                   uint (priority (tasks ts ! j)) < sint (snd res))"
          by simp_all
        from first have "\<forall>j < nat (fst res). runnable (tasks ts ! j) \<longrightarrow>
                   uint (priority (tasks ts ! j)) < sint (snd res)"
        proof
          assume "res = (uint index, ?p)"
          with "1.prems"(3) more same show ?thesis
            by auto
        qed
        with all show ?thesis
          by simp
      next
        case skipped: False
        from True inb skipped "1.prems"(1)
        have rest: "dispatcher_scan ts (index + 1) (nxt, highest) = Some res"
          by (simp add: dispatcher_scan_skip)
        have seen': "\<forall>j < unat (index + 1). runnable (tasks ts ! j) \<longrightarrow>
                  uint (priority (tasks ts ! j)) \<le> sint (snd (nxt, highest))"
          using "1.prems"(3) skipped suc
          by (auto simp: less_Suc_eq scan_takes_def runnable_def)
        from "1.IH"(2) [OF True inb skipped [unfolded scan_takes_def] rest "1.prems"(2) seen']
        show ?thesis
          by simp
      qed
    qed
  qed
qed

lemma dispatcher_scan_choice:
  assumes run: "dispatcher_scan ts 0 (INVALID_TASK, - 1) = Some (nxt, highest)"
    and small: "\<forall>j < unat (nTasks ts). runnable (tasks ts ! j) \<longrightarrow>
                  uint (priority (tasks ts ! j)) \<le> 127"
    and some: "j < unat (nTasks ts)" "runnable (tasks ts ! j)"
  shows "0 \<le> nxt \<and> nxt < uint (nTasks ts) \<and> runnable (tasks ts ! nat nxt)
     \<and> (\<forall>i < unat (nTasks ts). runnable (tasks ts ! i) \<longrightarrow>
            priority (tasks ts ! i) \<le> priority (tasks ts ! nat nxt))
     \<and> (\<forall>i < nat nxt. runnable (tasks ts ! i) \<longrightarrow>
            priority (tasks ts ! i) < priority (tasks ts ! nat nxt))"
proof -
  from dispatcher_scan_finds [OF run _ some] have range: "0 \<le> nxt" "nxt < uint (nTasks ts)"
    by simp_all
  with dispatcher_scan_result [OF run] have ready: "runnable (tasks ts ! nat nxt)"
    and top: "highest = priority (tasks ts ! nat nxt)"
    by (auto simp: INVALID_TASK_def)
  from range have "nat nxt < unat (nTasks ts)"
    by (simp add: nat_less_iff)
  with small ready have "uint (priority (tasks ts ! nat nxt)) \<le> 127"
    by simp
  then have same: "sint highest = uint (priority (tasks ts ! nat nxt))"
    unfolding top by (rule sint_small_priority)
  from range have moved: "(nxt, highest) \<noteq> (INVALID_TASK, - 1)"
    by (simp add: INVALID_TASK_def)
  from dispatcher_scan_best [OF run small] moved
  have "\<forall>i < unat (nTasks ts). runnable (tasks ts ! i) \<longrightarrow>
            uint (priority (tasks ts ! i)) \<le> sint highest"
    and "\<forall>i < nat nxt. runnable (tasks ts ! i) \<longrightarrow>
            uint (priority (tasks ts ! i)) < sint highest"
    by auto
  with same range ready show ?thesis
    by (simp add: word_le_def word_less_def)
qed

lemma dispatcher_same_task:
  "dispatcher_scan (task_list k) 0 (INVALID_TASK, - 1) = Some (current_task (task_list k), highest)
     \<Longrightarrow> dispatcher type k = Some k"
  by (simp add: dispatcher_def)

subsection \<open>Words as indices\<close>

lemma uint_le_of_unat_le: "unat (w :: 'a::len word) \<le> n \<Longrightarrow> uint w \<le> int n"
proof -
  assume "unat w \<le> n"
  then have "int (unat w) \<le> int n"
    by (simp only: of_nat_le_iff)
  then show ?thesis
    by simp
qed

lemma uint_less_of_unat_less: "unat (w :: 'a::len word) < n \<Longrightarrow> uint w < int n"
proof -
  assume "unat w < n"
  then have "int (unat w) < int n"
    by (simp only: of_nat_less_iff)
  then show ?thesis
    by simp
qed

subsection \<open>Writing one TCB\<close>

lemma tcb_update_Some:
  "tcb_update h f k = Some k' \<longleftrightarrow>
     is_slot k h
     \<and> k' = k\<lparr>task_list := (task_list k)
                \<lparr>tasks := (tasks (task_list k))[nat h := f (tasks (task_list k) ! nat h)]\<rparr>\<rparr>"
  by (auto simp: tcb_update_def is_slot_def)

lemma tcb_update_None:
  "tcb_update h f k = None \<longleftrightarrow> \<not> is_slot k h"
  by (simp add: tcb_update_def is_slot_def)

lemma is_slot_nat:
  "is_slot k h \<Longrightarrow> is_slot k i \<Longrightarrow> nat h = nat i \<longleftrightarrow> h = i"
  by (auto simp: is_slot_def)

subsection \<open>context_switch\<close>

lemma context_switch_Some:
  assumes "context_switch type k = Some k'"
  shows "is_slot k (next_task (task_list k))"
    and "length (tasks (task_list k')) = length (tasks (task_list k))"
    and "nTasks (task_list k') = nTasks (task_list k)"
    and "current_task (task_list k') = next_task (task_list k)"
    and "is_slot k i \<Longrightarrow>
           state (tcb k' i) = (if i = next_task (task_list k) then S_RUNNING else state (tcb k i))"
  using assms
  by (auto simp: context_switch_def tcb_update_def Let_def is_slot_def tcb_def nth_list_update
           split: if_splits Option.bind_splits)

lemma context_switch_total:
  "is_slot k (next_task (task_list k)) \<Longrightarrow>
   first_run k \<or> is_slot k (current_task (task_list k)) \<Longrightarrow>
     context_switch type k \<noteq> None"
  by (auto simp: context_switch_def tcb_update_def Let_def is_slot_def)

subsection \<open>dispatcher\<close>

lemma dispatcher_Some:
  assumes "dispatcher type k = Some k'"
  shows "k' = k
     \<or> (current_task (task_list k') \<noteq> current_task (task_list k)
        \<and> is_slot k (current_task (task_list k'))
        \<and> length (tasks (task_list k')) = length (tasks (task_list k))
        \<and> nTasks (task_list k') = nTasks (task_list k)
        \<and> (\<forall>i. is_slot k i \<longrightarrow>
              state (tcb k' i)
                = (if i = current_task (task_list k') then S_RUNNING else state (tcb k i))))"
proof -
  from assms obtain nxt highest where
    scan: "dispatcher_scan (task_list k) 0 (INVALID_TASK, - 1) = Some (nxt, highest)"
    and rest: "(if nxt \<noteq> current_task (task_list k)
                then context_switch type (k\<lparr>task_list := (task_list k)\<lparr>next_task := nxt\<rparr>\<rparr>)
                else Some k) = Some k'"
    by (auto simp: dispatcher_def split: Option.bind_splits)
  show ?thesis
  proof (cases "nxt = current_task (task_list k)")
    case True
    with rest show ?thesis
      by simp
  next
    case False
    let ?k1 = "k\<lparr>task_list := (task_list k)\<lparr>next_task := nxt\<rparr>\<rparr>"
    from False rest have cs: "context_switch type ?k1 = Some k'"
      by simp
    have slot: "is_slot ?k1 i = is_slot k i" for i
      by (simp add: is_slot_def)
    have same: "tcb ?k1 i = tcb k i" for i
      by (simp add: tcb_def)
    from context_switch_Some(1-4) [OF cs] context_switch_Some(5) [OF cs] False
    show ?thesis
      by (simp add: slot same)
  qed
qed

lemma dispatcher_total:
  assumes fits: "unat (nTasks (task_list k)) \<le> length (tasks (task_list k))"
    and some: "j < unat (nTasks (task_list k))" "runnable (tasks (task_list k) ! j)"
    and cur: "first_run k \<or> is_slot k (current_task (task_list k))"
  shows "dispatcher type k \<noteq> None"
proof -
  from dispatcher_scan_total [OF fits] obtain nxt highest where
    scan: "dispatcher_scan (task_list k) 0 (INVALID_TASK, - 1) = Some (nxt, highest)"
    by fastforce
  from dispatcher_scan_finds [OF scan _ some] have "0 \<le> nxt" "nxt < uint (nTasks (task_list k))"
    by simp_all
  moreover from fits have "uint (nTasks (task_list k)) \<le> int (length (tasks (task_list k)))"
    by (rule uint_le_of_unat_le)
  ultimately have slot: "is_slot k nxt"
    by (simp add: is_slot_def)
  let ?k1 = "k\<lparr>task_list := (task_list k)\<lparr>next_task := nxt\<rparr>\<rparr>"
  from slot cur have "context_switch type ?k1 \<noteq> None"
    by (intro context_switch_total) (auto simp: is_slot_def)
  with scan show ?thesis
    by (simp add: dispatcher_def)
qed

subsection \<open>The wake-up loop\<close>


lemma wake_slot_zero:
  fixes t :: "('w::len) word rtos_tcb_t"
  assumes "state t = S_WAITING" "local_tick t = 0"
  shows "wake_slot t = t\<lparr>local_tick := - 1\<rparr>"
  using assms by (simp add: wake_slot_def Let_def)

lemma activate_waiting_loop_preserves:
  assumes run: "activate_waiting_loop i k = Some k'"
    and step: "\<And>h k k1. tcb_update h wake_slot k = Some k1 \<Longrightarrow> Q k \<Longrightarrow> Q k1"
    and start: "Q k"
  shows "Q k'"
proof -
  have "Q k \<longrightarrow> Q k'"
  proof (rule activate_waiting_loop.raw_induct [where P = "\<lambda>i k k'. Q k \<longrightarrow> Q k'", OF _ run])
    fix rest :: "8 word \<Rightarrow> 'a word kernel \<Rightarrow> 'a word kernel option"
      and i :: "8 word" and k k' :: "'a word kernel"
    assume later: "\<And>i k y. rest i k = Some y \<Longrightarrow> Q k \<longrightarrow> Q y"
      and body: "(if i \<le> nTasks (task_list k)
                  then case tcb_update (uint i) wake_slot k of
                         None \<Rightarrow> None
                       | Some k1 \<Rightarrow> rest (i + 1) k1
                  else Some k) = Some k'"
    show "Q k \<longrightarrow> Q k'"
    proof (cases "i \<le> nTasks (task_list k)")
      case False
      with body show ?thesis
        by simp
    next
      case True
      with body obtain k1 where "tcb_update (uint i) wake_slot k = Some k1"
        and "rest (i + 1) k1 = Some k'"
        by (auto split: option.splits)
      with step later show ?thesis
        by blast
    qed
  qed
  with start show ?thesis
    by simp
qed




lemma wake_range_length [simp]: "length (wake_range lo hi xs) = length xs"
  by (simp add: wake_range_def)








subsection \<open>Which tasks are running\<close>

lemma running_slots_iff:
  "i \<in> set (running_slots k) \<longleftrightarrow>
     i < length (tasks (task_list k)) \<and> state (tasks (task_list k) ! i) = S_RUNNING"
  by (auto simp: running_slots_def)

lemma only_current_running_iff:
  "only_current_running k \<longleftrightarrow>
     (\<forall>i < length (tasks (task_list k)).
        state (tasks (task_list k) ! i) = S_RUNNING \<longrightarrow> int i = current_task (task_list k))"
  by (auto simp: only_current_running_def list_all_iff running_slots_iff)

lemma only_current_running_at_most_one:
  assumes "only_current_running k"
  shows "at_most_one_running k"
proof -
  have "distinct (running_slots k)"
    by (simp add: running_slots_def)
  then have "length (running_slots k) = card (set (running_slots k))"
    by (simp add: distinct_card)
  also from assms have "set (running_slots k) \<subseteq> {nat (current_task (task_list k))}"
    by (auto simp: only_current_running_def list_all_iff)
  then have "card (set (running_slots k)) \<le> card {nat (current_task (task_list k))}"
    by (intro card_mono) simp_all
  finally show ?thesis
    by (simp add: at_most_one_running_def)
qed


lemma is_slot_int [simp]: "is_slot k (int i) \<longleftrightarrow> i < length (tasks (task_list k))"
  by (simp add: is_slot_def)

lemma tcb_int [simp]: "tcb k (int i) = tasks (task_list k) ! i"
  by (simp add: tcb_def)

lemma is_slot_nat_less: "is_slot k h \<Longrightarrow> nat h < length (tasks (task_list k))"
  by (simp add: is_slot_def nat_less_iff)

lemma dispatcher_from_none_running:
  assumes none: "\<forall>i < length (tasks (task_list k)). state (tasks (task_list k) ! i) \<noteq> S_RUNNING"
    and run: "dispatcher type k = Some k'"
  shows "only_current_running k'"
proof -
  from dispatcher_Some [OF run] show ?thesis
  proof
    assume "k' = k"
    with none show ?thesis
      by (simp add: only_current_running_iff)
  next
    assume sw: "current_task (task_list k') \<noteq> current_task (task_list k)
        \<and> is_slot k (current_task (task_list k'))
        \<and> length (tasks (task_list k')) = length (tasks (task_list k))
        \<and> nTasks (task_list k') = nTasks (task_list k)
        \<and> (\<forall>i. is_slot k i \<longrightarrow>
              state (tcb k' i)
                = (if i = current_task (task_list k') then S_RUNNING else state (tcb k i)))"
    show ?thesis
      unfolding only_current_running_iff
    proof (intro allI impI)
      fix i
      assume i: "i < length (tasks (task_list k'))"
        and r: "state (tasks (task_list k') ! i) = S_RUNNING"
      from i sw have slot: "is_slot k (int i)"
        by simp
      with sw have "state (tcb k' (int i))
                = (if int i = current_task (task_list k') then S_RUNNING else state (tcb k (int i)))"
        by blast
      with r none i sw show "int i = current_task (task_list k')"
        by (auto simp: tcb_def split: if_splits)
    qed
  qed
qed

lemma blocked_caller_none_running:
  assumes only: "only_current_running k"
    and upd: "tcb_update (current_task (task_list k)) f k = Some k1"
    and blocked: "\<And>t. state (f t) \<noteq> S_RUNNING"
  shows "\<forall>i < length (tasks (task_list k1)). state (tasks (task_list k1) ! i) \<noteq> S_RUNNING"
proof (intro allI impI)
  fix i
  assume i: "i < length (tasks (task_list k1))"
  from upd have slot: "is_slot k (current_task (task_list k))"
    and k1: "k1 = k\<lparr>task_list := (task_list k)
                \<lparr>tasks := (tasks (task_list k))[nat (current_task (task_list k))
                   := f (tasks (task_list k) ! nat (current_task (task_list k)))]\<rparr>\<rparr>"
    by (simp_all add: tcb_update_Some)
  from i k1 have i': "i < length (tasks (task_list k))"
    by simp
  show "state (tasks (task_list k1) ! i) \<noteq> S_RUNNING"
  proof (cases "i = nat (current_task (task_list k))")
    case True
    with i' k1 blocked show ?thesis
      by simp
  next
    case False
    with slot have "int i \<noteq> current_task (task_list k)"
      by (auto simp: is_slot_def)
    with only i' have "state (tasks (task_list k) ! i) \<noteq> S_RUNNING"
      by (auto simp: only_current_running_iff)
    with False k1 show ?thesis
      by simp
  qed
qed

lemma rtos_delay_only_current:
  assumes only: "only_current_running k" and run: "rtos_delay ticks k = Some k'"
  shows "only_current_running k'"
proof -
  from run obtain k1 k2 where
    u1: "tcb_update (current_task (task_list k)) (\<lambda>t. t\<lparr>state := S_WAITING\<rparr>) k = Some k1"
    and u2: "tcb_update (current_task (task_list k1)) (\<lambda>t. t\<lparr>local_tick := ticks\<rparr>) k1 = Some k2"
    and d: "dispatcher kFromNormalExec k2 = Some k'"
    by (auto simp: rtos_delay_def split: Option.bind_splits)
  from blocked_caller_none_running [OF only u1]
  have n1: "\<forall>i < length (tasks (task_list k1)). state (tasks (task_list k1) ! i) \<noteq> S_RUNNING"
    by simp
  from u2 have "\<forall>i < length (tasks (task_list k2)). state (tasks (task_list k2) ! i) \<noteq> S_RUNNING"
    using n1 by (auto simp: tcb_update_Some nth_list_update is_slot_nat_less split: if_splits)
  from dispatcher_from_none_running [OF this d] show ?thesis .
qed

lemma rtos_suspend_task_only_current:
  assumes only: "only_current_running k" and run: "rtos_suspend_task k = Some k'"
  shows "only_current_running k'"
proof -
  from run obtain k1 where
    u1: "tcb_update (current_task (task_list k)) (\<lambda>t. t\<lparr>state := S_SUSPENDED\<rparr>) k = Some k1"
    and d: "dispatcher kFromNormalExec k1 = Some k'"
    by (auto simp: rtos_suspend_task_def split: Option.bind_splits)
  from blocked_caller_none_running [OF only u1]
  have "\<forall>i < length (tasks (task_list k1)). state (tasks (task_list k1) ! i) \<noteq> S_RUNNING"
    by simp
  from dispatcher_from_none_running [OF this d] show ?thesis .
qed

lemma wake_slot_running: "state t = S_RUNNING \<Longrightarrow> state (wake_slot t) = S_RUNNING"
  by (simp add: wake_slot_def)

lemma activate_waiting_tasks_frame:
  assumes "activate_waiting_tasks k = Some k'"
  shows "length (tasks (task_list k')) = length (tasks (task_list k))
     \<and> current_task (task_list k') = current_task (task_list k)
     \<and> nTasks (task_list k') = nTasks (task_list k)
     \<and> first_run k' = first_run k"
  using assms unfolding activate_waiting_tasks_def
  by (rule activate_waiting_loop_preserves) (auto simp: tcb_update_Some)

lemma activate_waiting_tasks_running:
  assumes "activate_waiting_tasks k = Some k'"
    and "i < length (tasks (task_list k))" and "state (tasks (task_list k) ! i) = S_RUNNING"
  shows "i < length (tasks (task_list k')) \<and> state (tasks (task_list k') ! i) = S_RUNNING"
  using assms(1) unfolding activate_waiting_tasks_def
  by (rule activate_waiting_loop_preserves)
     (use assms(2,3) in
       \<open>auto simp: tcb_update_Some nth_list_update wake_slot_running is_slot_nat_less
             split: if_splits\<close>)

lemma dispatcher_keeps_running:
  assumes run: "dispatcher type k = Some k'"
    and i: "i < length (tasks (task_list k))" and r: "state (tasks (task_list k) ! i) = S_RUNNING"
  shows "i < length (tasks (task_list k')) \<and> state (tasks (task_list k') ! i) = S_RUNNING"
proof -
  from dispatcher_Some [OF run] show ?thesis
  proof
    assume "k' = k"
    with i r show ?thesis
      by simp
  next
    assume sw: "current_task (task_list k') \<noteq> current_task (task_list k)
        \<and> is_slot k (current_task (task_list k'))
        \<and> length (tasks (task_list k')) = length (tasks (task_list k))
        \<and> nTasks (task_list k') = nTasks (task_list k)
        \<and> (\<forall>i. is_slot k i \<longrightarrow>
              state (tcb k' i)
                = (if i = current_task (task_list k') then S_RUNNING else state (tcb k i)))"
    from i have "is_slot k (int i)"
      by simp
    with sw have "state (tcb k' (int i))
                = (if int i = current_task (task_list k') then S_RUNNING else state (tcb k (int i)))"
      by blast
    with i r sw show ?thesis
      by (auto simp: tcb_def)
  qed
qed

lemma dispatcher_new_current_running:
  assumes run: "dispatcher type k = Some k'"
    and changed: "current_task (task_list k') \<noteq> current_task (task_list k)"
  shows "nat (current_task (task_list k')) \<in> set (running_slots k')"
proof -
  from dispatcher_Some [OF run] changed
  have slot: "is_slot k (current_task (task_list k'))"
    and len: "length (tasks (task_list k')) = length (tasks (task_list k))"
    and st: "\<forall>i. is_slot k i \<longrightarrow>
              state (tcb k' i)
                = (if i = current_task (task_list k') then S_RUNNING else state (tcb k i))"
    by auto
  from st slot have "state (tcb k' (current_task (task_list k'))) = S_RUNNING"
    by simp
  with slot len show ?thesis
    by (simp add: running_slots_iff tcb_def is_slot_nat_less)
qed

subsection \<open>Creating a task, and the calls that cannot fail\<close>

lemma rtos_create_task_full:
  "\<not> unat (nTasks (task_list k)) < RTOS_MAX_NUMBER_OF_TASKS cfg \<Longrightarrow>
     rtos_create_task cfg body prio autostart k = Some (INVALID_TASK, k)"
  by (simp add: rtos_create_task_def)

lemma rtos_create_task_Some:
  fixes k :: "('w::len) word kernel"
  assumes "rtos_create_task cfg body prio autostart k = Some (h, k')"
    and room: "unat (nTasks (task_list k)) < RTOS_MAX_NUMBER_OF_TASKS cfg"
  shows "h = uint (nTasks (task_list k))"
    and "is_slot k h"
    and "2 \<le> RTOS_STACK_SIZE cfg"
    and "RTOS_STACK_SIZE cfg \<le> length (stack (tcb k h))"
    and "k' = k\<lparr>task_list := (task_list k)
              \<lparr>tasks := (tasks (task_list k))
                 [nat h := (tcb k h)
                    \<lparr>priority := prio,
                     local_tick := 0,
                     task_body := body,
                     sp := stack_base cfg (nat h) + (int (RTOS_STACK_SIZE cfg) - 1 - STACK_FRAME_SIZE),
                     state := (if kStartSuspended = autostart then S_SUSPENDED else S_READY),
                     stack := (stack (tcb k h))
                        [RTOS_STACK_SIZE cfg - 2 := body,
                         RTOS_STACK_SIZE cfg - 1 := STACK_PSR_DEFAULT]\<rparr>],
               nTasks := nTasks (task_list k) + 1\<rparr>\<rparr>"
  using assms
  by (auto simp: rtos_create_task_def Let_def tcb_update_def is_slot_def tcb_def
                 STACK_PC_OFFSET_def STACK_PSR_OFFSET_def nat_diff_distrib
           split: if_splits Option.bind_splits)


lemma rtos_create_task_total:
  fixes k :: "('w::len) word kernel"
  assumes "laid_out cfg k"
  shows "rtos_create_task cfg body prio autostart k \<noteq> None"
proof (cases "unat (nTasks (task_list k)) < RTOS_MAX_NUMBER_OF_TASKS cfg")
  case False
  then show ?thesis
    by (simp add: rtos_create_task_full)
next
  case True
  with assms have inb: "unat (nTasks (task_list k)) < length (tasks (task_list k))"
    by (simp add: laid_out_def)
  with assms have "length (stack (tasks (task_list k) ! unat (nTasks (task_list k))))
                     = RTOS_STACK_SIZE cfg"
    by (simp add: laid_out_def list_all_length)
  moreover from inb have "uint (nTasks (task_list k)) < int (length (tasks (task_list k)))"
    by (rule uint_less_of_unat_less)
  ultimately show ?thesis
    using assms True inb
    by (simp add: rtos_create_task_def Let_def tcb_update_def laid_out_def
                  STACK_PC_OFFSET_def STACK_PSR_OFFSET_def)
qed

lemma other_runnable_iff:
  "other_runnable k \<longleftrightarrow>
     (\<exists>j < unat (nTasks (task_list k)).
        int j \<noteq> current_task (task_list k) \<and> runnable (tasks (task_list k) ! j))"
  by (auto simp: other_runnable_def list_ex_iff)

lemma blocking_call_total:
  assumes serv: "in_service k" and other: "other_runnable k"
    and upd: "tcb_update (current_task (task_list k)) f k = Some k1"
  shows "dispatcher type k1 \<noteq> None"
proof -
  from other obtain j where j: "j < unat (nTasks (task_list k))"
    "int j \<noteq> current_task (task_list k)" "runnable (tasks (task_list k) ! j)"
    by (auto simp: other_runnable_iff)
  from upd have slot: "is_slot k (current_task (task_list k))"
    and k1: "k1 = k\<lparr>task_list := (task_list k)
                \<lparr>tasks := (tasks (task_list k))[nat (current_task (task_list k))
                   := f (tasks (task_list k) ! nat (current_task (task_list k)))]\<rparr>\<rparr>"
    by (simp_all add: tcb_update_Some)
  from slot j(2) have "nat (current_task (task_list k)) \<noteq> j"
    by (auto simp: is_slot_def)
  with k1 j(3) have "runnable (tasks (task_list k1) ! j)"
    by simp
  moreover from k1 j(1) have "j < unat (nTasks (task_list k1))"
    by simp
  moreover from k1 serv have "unat (nTasks (task_list k1)) \<le> length (tasks (task_list k1))"
    by (simp add: in_service_def)
  moreover from k1 slot have "is_slot k1 (current_task (task_list k1))"
    by (simp add: is_slot_def)
  ultimately show ?thesis
    by (intro dispatcher_total) simp_all
qed

lemma rtos_delay_total:
  assumes "in_service k" "other_runnable k"
  shows "rtos_delay ticks k \<noteq> None"
proof -
  from assms(1) obtain k1 where
    u1: "tcb_update (current_task (task_list k)) (\<lambda>t. t\<lparr>state := S_WAITING\<rparr>) k = Some k1"
    by (auto simp: tcb_update_Some in_service_def)
  let ?f = "\<lambda>t. t\<lparr>state := S_WAITING, local_tick := ticks\<rparr>"
  from u1 obtain k2 where
    u2: "tcb_update (current_task (task_list k1)) (\<lambda>t. t\<lparr>local_tick := ticks\<rparr>) k1 = Some k2"
    by (auto simp: tcb_update_Some is_slot_def)
  from u1 u2 have "tcb_update (current_task (task_list k)) ?f k = Some k2"
    by (auto simp: tcb_update_Some is_slot_def)
  from blocking_call_total [OF assms this] u1 u2 show ?thesis
    by (simp add: rtos_delay_def)
qed

lemma rtos_suspend_task_total:
  assumes "in_service k" "other_runnable k"
  shows "rtos_suspend_task k \<noteq> None"
proof -
  from assms(1) obtain k1 where
    u1: "tcb_update (current_task (task_list k)) (\<lambda>t. t\<lparr>state := S_SUSPENDED\<rparr>) k = Some k1"
    by (auto simp: tcb_update_Some in_service_def)
  from blocking_call_total [OF assms this] u1 show ?thesis
    by (simp add: rtos_suspend_task_def)
qed

lemma rtos_activate_task_total:
  assumes serv: "in_service k" and h: "created k h"
  shows "rtos_activate_task h k \<noteq> None"
proof -
  from h have lt: "nat h < unat (nTasks (task_list k))"
    by (simp add: created_def nat_less_iff)
  with serv have inb: "nat h < length (tasks (task_list k))"
    by (simp add: in_service_def)
  with h have slot: "is_slot k h"
    by (simp add: created_def is_slot_def)
  let ?k1 = "k\<lparr>task_list := (task_list k)
                \<lparr>tasks := (tasks (task_list k))[nat h
                   := (tasks (task_list k) ! nat h)\<lparr>state := S_READY\<rparr>]\<rparr>\<rparr>"
  from slot have u1: "tcb_update h (\<lambda>t. t\<lparr>state := S_READY\<rparr>) k = Some ?k1"
    by (simp add: tcb_update_Some)
  from inb have ready: "runnable (tasks (task_list ?k1) ! nat h)"
    by (simp add: runnable_def)
  from lt have among: "nat h < unat (nTasks (task_list ?k1))"
    by simp
  from serv have fits: "unat (nTasks (task_list ?k1)) \<le> length (tasks (task_list ?k1))"
    and cur: "first_run ?k1 \<or> is_slot ?k1 (current_task (task_list ?k1))"
    by (simp_all add: in_service_def is_slot_def)
  from fits among ready cur have "dispatcher kFromNormalExec ?k1 \<noteq> None"
    by (rule dispatcher_total)
  with u1 show ?thesis
    by (simp add: rtos_activate_task_def)
qed

lemma rtos_start_scheduler_total:
  fixes k :: "('w::len) word kernel"
  assumes "laid_out cfg k"
  shows "rtos_start_scheduler cfg k \<noteq> None"
proof (cases "RTOS_ENABLE_IS_ALIVE cfg")
  case False
  then show ?thesis
    by (simp add: rtos_start_scheduler_def)
next
  case True
  let ?k2 = "k\<lparr>task_list := (task_list k)\<lparr>global_tick := 0, current_task := INVALID_TASK\<rparr>\<rparr>"
  from assms have "laid_out cfg ?k2"
    by (simp add: laid_out_def)
  then have "rtos_create_task cfg (idle_task cfg) 0 kAutoStart ?k2 \<noteq> None"
    by (rule rtos_create_task_total)
  then obtain h k3 where "rtos_create_task cfg (idle_task cfg) 0 kAutoStart ?k2 = Some (h, k3)"
    by fastforce
  with True show ?thesis
    by (simp add: rtos_start_scheduler_def Let_def)
qed

subsection \<open>Creating many tasks\<close>





subsection \<open>The example kernel\<close>

lemma demo_kernel_reached:
  "boot_and_run board3 [(0x100, 2, kAutoStart)] [Tick, Deferred_switch] = Some demo_kernel"
  by code_simp

lemma demo_preempt_reached:
  "boot_and_run board3 [(0x100, 1, kAutoStart), (0x200, 2, kAutoStart)]
     [Tick, Deferred_switch, Call_delay 1, Deferred_switch] = Some demo_preempt"
  by code_simp

text \<open>
  The same happens from thread context: when the running task of priority 1 activates the
  waiting task of priority 2, the dispatcher switches to it and both are \<open>S_RUNNING\<close>.
\<close>

lemma activate_leaves_caller_running:
  "running_slots demo_preempt = [0]
   \<and> map_option running_slots (rtos_activate_task 1 demo_preempt) = Some [0, 1]"
  by code_simp

section \<open>The claims\<close>

text \<open>
  C1.  A task that calls \<open>rtos_delay\<close> with 0 ticks is put in state \<open>S_WAITING\<close> with
  local tick 0.  The wake-up pass of the next tick decrements the counter before it tests
  it, so the counter wraps to the largest value and the task stays \<open>S_WAITING\<close>: it is not
  made ready by the next tick.  Shown on the three-task build with one user task of
  priority 2 and the idle task: the view after the call, and the view after the tick
  that follows.
\<close>

theorem delay_zero_sleeps:
  "map_option summary
     (boot_and_run board3 [(0x100, 2, kAutoStart)] [Tick, Deferred_switch, Call_delay 0])
     = Some ([(2, S_WAITING, 0 :: 32 word), (0, S_RUNNING, 0), (0, S_READY, 0), (0, S_READY, 0)],
             2, 1)
   \<and> map_option summary
     (boot_and_run board3 [(0x100, 2, kAutoStart)]
        [Tick, Deferred_switch, Call_delay 0, Deferred_switch, Tick])
     = Some ([(2, S_WAITING, 0xFFFFFFFF :: 32 word), (0, S_RUNNING, 0), (0, S_READY, 0),
              (0, S_READY, 0)], 2, 1)"
  by code_simp

text \<open>
  C2.  \<open>context_switch\<close> marks the incoming task \<open>S_RUNNING\<close> and leaves the state of the
  outgoing task as it is, so a task that is preempted stays \<open>S_RUNNING\<close>.  Two tasks of
  priority 1 and 2 and the idle task; the task of priority 2 has run and called
  \<open>rtos_delay 1\<close>, the task of priority 1 runs.  The first context switch is long past
  and exactly one task is running.  The next tick wakes the task of priority 2 and
  switches to it: afterwards slots 0 and 1 are both \<open>S_RUNNING\<close>, and "at most one task
  has state RUNNING" no longer holds.
\<close>

theorem two_running_after_tick:
  "map_option summary
     (boot_and_run board3 [(0x100, 1, kAutoStart), (0x200, 2, kAutoStart)]
        [Tick, Deferred_switch, Call_delay 1, Deferred_switch])
     = Some ([(1, S_RUNNING, 0 :: 32 word), (2, S_WAITING, 1), (0, S_READY, 0), (0, S_READY, 0)],
             3, 0)
   \<and> map_option first_run
     (boot_and_run board3 [(0x100, 1, kAutoStart), (0x200, 2, kAutoStart)]
        [Tick, Deferred_switch, Call_delay 1, Deferred_switch]
        :: 32 word kernel option)
     = Some False
   \<and> map_option at_most_one_running
     (boot_and_run board3 [(0x100, 1, kAutoStart), (0x200, 2, kAutoStart)]
        [Tick, Deferred_switch, Call_delay 1, Deferred_switch]
        :: 32 word kernel option)
     = Some True
   \<and> map_option summary
     (boot_and_run board3 [(0x100, 1, kAutoStart), (0x200, 2, kAutoStart)]
        [Tick, Deferred_switch, Call_delay 1, Deferred_switch, Tick])
     = Some ([(1, S_RUNNING, 0 :: 32 word), (2, S_RUNNING, 0), (0, S_READY, 0), (0, S_READY, 0)],
             3, 1)
   \<and> map_option at_most_one_running
     (boot_and_run board3 [(0x100, 1, kAutoStart), (0x200, 2, kAutoStart)]
        [Tick, Deferred_switch, Call_delay 1, Deferred_switch, Tick]
        :: 32 word kernel option)
     = Some False"
  by code_simp

text \<open>
  C3.  With room for two user tasks, three calls of \<open>rtos_create_task\<close> return the
  handles 0 and 1 and then the invalid sentinel.  The idle task that
  \<open>rtos_start_scheduler\<close> registers goes through the same capacity test, which fails:
  \<open>nTasks\<close> stays 2, the third slot of the array is still zero and no slot holds the
  entry address of the idle task.
\<close>

theorem idle_task_not_created:
  "map_option fst
     (boot board [(0x100, 1, kAutoStart), (0x200, 1, kAutoStart), (0x300, 1, kAutoStart)]
        :: (rtos_task_handle_t list \<times> 32 word kernel) option)
     = Some [0, 1, INVALID_TASK]
   \<and> map_option (summary \<circ> snd)
     (boot board [(0x100, 1, kAutoStart), (0x200, 1, kAutoStart), (0x300, 1, kAutoStart)]
        :: (rtos_task_handle_t list \<times> 32 word kernel) option)
     = Some ([(1, S_READY, 0), (1, S_READY, 0), (0, S_READY, 0)], 2, INVALID_TASK)
   \<and> map_option (entries \<circ> snd)
     (boot board [(0x100, 1, kAutoStart), (0x200, 1, kAutoStart), (0x300, 1, kAutoStart)]
        :: (rtos_task_handle_t list \<times> 32 word kernel) option)
     = Some [0x100, 0x200, 0]
   \<and> idle_task board = 0x400"
  by code_simp

text \<open>
  C4.  Two ready tasks of priority 200 and 5 and the idle task.  The scan stores 200 in
  its signed 8-bit \<open>highest\<close>, where it reads as \<open>-56\<close>, and then takes the task of
  priority 5: the first tick makes slot 1 the current task while slot 0, of higher
  priority, stays ready.
\<close>

theorem dispatcher_prefers_low_priority:
  "map_option (summary \<circ> snd)
     (boot board3 [(0x100, 200, kAutoStart), (0x200, 5, kAutoStart)]
        :: (rtos_task_handle_t list \<times> 32 word kernel) option)
     = Some ([(200, S_READY, 0), (5, S_READY, 0), (0, S_READY, 0), (0, S_READY, 0)],
             3, INVALID_TASK)
   \<and> map_option summary
     (boot_and_run board3 [(0x100, 200, kAutoStart), (0x200, 5, kAutoStart)] [Tick])
     = Some ([(200, S_READY, 0 :: 32 word), (5, S_RUNNING, 0), (0, S_READY, 0), (0, S_READY, 0)],
             3, 1)"
  by code_simp

text \<open>
  C5.  \<open>rtos_create_task\<close> returns the invalid sentinel exactly when \<open>nTasks\<close> has reached
  the configured maximum, and then changes nothing.  Otherwise it returns the old task
  count as the handle, which is not negative, counts the task, and the new TCB has the
  given priority and entry, local tick zero, and state \<open>S_READY\<close> for \<open>kAutoStart\<close> and
  \<open>S_SUSPENDED\<close> for \<open>kStartSuspended\<close>.  On a store laid out for the build the call
  always returns.  The other calls return no error value: \<open>rtos_delay\<close> and
  \<open>rtos_suspend_task\<close> return a state whenever the kernel is in service and another
  created task is ready or running, \<open>rtos_activate_task\<close> whenever the handle is one of
  a created task, \<open>rtos_start_scheduler\<close> reaches its endless loop on every store laid
  out for the build (the handle of the idle task is dropped), and \<open>rtos_get_clock\<close> is
  the global tick.
\<close>

theorem create_task_only_failure:
  fixes k :: "('w::len) word kernel"
  shows "(\<forall>h k'. rtos_create_task cfg body prio autostart k = Some (h, k') \<longrightarrow>
            (h = INVALID_TASK \<longleftrightarrow> \<not> unat (nTasks (task_list k)) < RTOS_MAX_NUMBER_OF_TASKS cfg)
          \<and> (h = INVALID_TASK \<longrightarrow> k' = k)
          \<and> (h \<noteq> INVALID_TASK \<longrightarrow>
                h = uint (nTasks (task_list k)) \<and> 0 \<le> h
              \<and> nTasks (task_list k') = nTasks (task_list k) + 1
              \<and> priority (tcb k' h) = prio
              \<and> task_body (tcb k' h) = body
              \<and> local_tick (tcb k' h) = 0
              \<and> state (tcb k' h)
                   = (case autostart of kAutoStart \<Rightarrow> S_READY | kStartSuspended \<Rightarrow> S_SUSPENDED)))
     \<and> (laid_out cfg k \<longrightarrow> rtos_create_task cfg body prio autostart k \<noteq> None)
     \<and> (in_service k \<and> other_runnable k \<longrightarrow>
            rtos_delay ticks k \<noteq> None \<and> rtos_suspend_task k \<noteq> None)
     \<and> (in_service k \<and> created k task \<longrightarrow> rtos_activate_task task k \<noteq> None)
     \<and> (laid_out cfg k \<longrightarrow> rtos_start_scheduler cfg k \<noteq> None)
     \<and> rtos_get_clock k = global_tick (task_list k)"
proof (intro conjI allI impI)
  fix h k'
  assume res: "rtos_create_task cfg body prio autostart k = Some (h, k')"
  show "h = INVALID_TASK \<longleftrightarrow> \<not> unat (nTasks (task_list k)) < RTOS_MAX_NUMBER_OF_TASKS cfg"
  proof (cases "unat (nTasks (task_list k)) < RTOS_MAX_NUMBER_OF_TASKS cfg")
    case True
    from rtos_create_task_Some(1) [OF res True] have "0 \<le> h"
      by simp
    with True show ?thesis
      by (simp add: INVALID_TASK_def)
  next
    case False
    with res show ?thesis
      by (simp add: rtos_create_task_full)
  qed
  then have room: "unat (nTasks (task_list k)) < RTOS_MAX_NUMBER_OF_TASKS cfg"
    if "h \<noteq> INVALID_TASK"
    using that by simp
  show "k' = k" if "h = INVALID_TASK"
  proof (cases "unat (nTasks (task_list k)) < RTOS_MAX_NUMBER_OF_TASKS cfg")
    case True
    from rtos_create_task_Some(1) [OF res True] have "0 \<le> h"
      by simp
    with that show ?thesis
      by (simp add: INVALID_TASK_def)
  next
    case False
    with res show ?thesis
      by (simp add: rtos_create_task_full)
  qed
  assume ok: "h \<noteq> INVALID_TASK"
  note new = rtos_create_task_Some [OF res room [OF ok]]
  from new(1) show "h = uint (nTasks (task_list k))" .
  from new(1) show "0 \<le> h"
    by simp
  from new(5) show "nTasks (task_list k') = nTasks (task_list k) + 1"
    by simp
  from new(2) have inb: "nat h < length (tasks (task_list k))"
    by (rule is_slot_nat_less)
  with new(5) show "priority (tcb k' h) = prio" "task_body (tcb k' h) = body"
    "local_tick (tcb k' h) = 0"
    by (simp_all add: tcb_def)
  from inb new(5) show "state (tcb k' h)
                   = (case autostart of kAutoStart \<Rightarrow> S_READY | kStartSuspended \<Rightarrow> S_SUSPENDED)"
    by (cases autostart) (simp_all add: tcb_def)
next
  assume "laid_out cfg k"
  then show "rtos_create_task cfg body prio autostart k \<noteq> None"
    by (rule rtos_create_task_total)
next
  assume "in_service k \<and> other_runnable k"
  then show "rtos_delay ticks k \<noteq> None" "rtos_suspend_task k \<noteq> None"
    by (simp_all add: rtos_delay_total rtos_suspend_task_total)
next
  assume "in_service k \<and> created k task"
  then show "rtos_activate_task task k \<noteq> None"
    by (simp add: rtos_activate_task_total)
next
  assume "laid_out cfg k"
  then show "rtos_start_scheduler cfg k \<noteq> None"
    by (rule rtos_start_scheduler_total)
next
  show "rtos_get_clock k = global_tick (task_list k)"
    by (simp add: rtos_get_clock_def)
qed

theorem create_task_only_failure_witness:
  "laid_out board3 demo_kernel \<and> in_service demo_kernel \<and> other_runnable demo_kernel
   \<and> created demo_kernel 1
   \<and> map_option fst (rtos_create_task board3 0x200 7 kStartSuspended demo_kernel) = Some 2
   \<and> map_option (\<lambda>(h, k). state (tcb k h))
        (rtos_create_task board3 0x200 7 kStartSuspended demo_kernel) = Some S_SUSPENDED
   \<and> rtos_delay 5 demo_kernel \<noteq> None
   \<and> rtos_suspend_task demo_kernel \<noteq> None
   \<and> rtos_activate_task 1 demo_kernel \<noteq> None
   \<and> rtos_start_scheduler board3 demo_kernel \<noteq> None"
proof -
  have pre: "laid_out board3 demo_kernel" "in_service demo_kernel"
    "other_runnable demo_kernel" "created demo_kernel 1"
    by code_simp+
  have room: "unat (nTasks (task_list demo_kernel)) < RTOS_MAX_NUMBER_OF_TASKS board3"
    by code_simp
  have count: "uint (nTasks (task_list demo_kernel)) = 2"
    by code_simp
  note all = create_task_only_failure
    [of board3 "0x200" 7 kStartSuspended demo_kernel 5 1]
  note returns = all [THEN conjunct2, THEN conjunct1, rule_format, OF pre(1)]
  then obtain h k' where
    res: "rtos_create_task board3 0x200 7 kStartSuspended demo_kernel = Some (h, k')"
    by (cases "rtos_create_task board3 0x200 7 kStartSuspended demo_kernel") auto
  note result = all [THEN conjunct1, rule_format, OF res]
  from result [THEN conjunct1] room have ok: "h \<noteq> INVALID_TASK"
    by simp
  note new = result [THEN conjunct2, THEN conjunct2, rule_format, OF ok]
  from new have "h = uint (nTasks (task_list demo_kernel))"
    and "state (tcb k' h)
           = (case kStartSuspended of kAutoStart \<Rightarrow> S_READY | kStartSuspended \<Rightarrow> S_SUSPENDED)"
    by blast+
  with res count have made:
    "map_option fst (rtos_create_task board3 0x200 7 kStartSuspended demo_kernel) = Some 2"
    "map_option (\<lambda>(h, k). state (tcb k h))
        (rtos_create_task board3 0x200 7 kStartSuspended demo_kernel) = Some S_SUSPENDED"
    by simp_all
  from pre(2,3) have "in_service demo_kernel \<and> other_runnable demo_kernel"
    by simp
  note blocking = all [THEN conjunct2, THEN conjunct2, THEN conjunct1, rule_format, OF this]
  from pre(2,4) have "in_service demo_kernel \<and> created demo_kernel 1"
    by simp
  note waking = all [THEN conjunct2, THEN conjunct2, THEN conjunct2, THEN conjunct1,
                     rule_format, OF this]
  note starting = all [THEN conjunct2, THEN conjunct2, THEN conjunct2, THEN conjunct2,
                       THEN conjunct1, rule_format, OF pre(1)]
  from pre made blocking waking starting show ?thesis
    by simp
qed

text \<open>
  C6.  Phase 1 of the context switch, for a valid \<open>next_task\<close> (and, after the first
  switch, a valid \<open>current_task\<close>): the function returns; on the first switch no saved
  stack pointer changes; on a later switch the saved stack pointer of the outgoing task
  is the observed one minus 9 words for \<open>kFromNormalExec\<close> and plus 9 words for
  \<open>kFromISR\<close>, and no other saved stack pointer changes; \<open>next_task\<close> becomes
  \<open>current_task\<close>, its state is \<open>S_RUNNING\<close>, the first-switch flag is cleared and PendSV
  is pending.
\<close>

theorem context_switch_phase1:
  assumes nxt: "is_slot k (next_task (task_list k))"
    and cur: "\<not> first_run k \<Longrightarrow> is_slot k (current_task (task_list k))"
  shows "\<exists>k'. context_switch type k = Some k'
     \<and> current_task (task_list k') = next_task (task_list k)
     \<and> state (tcb k' (next_task (task_list k))) = S_RUNNING
     \<and> pendsv_pending k' \<and> \<not> first_run k'
     \<and> (\<forall>i. is_slot k i \<longrightarrow> sp (tcb k' i) =
          (if \<not> first_run k \<and> i = current_task (task_list k)
           then (case type of kFromNormalExec \<Rightarrow> cpu_sp k - 9 | kFromISR \<Rightarrow> cpu_sp k + 9)
           else sp (tcb k i)))"
  using assms
  by (cases type)
     (auto simp: context_switch_def tcb_update_def Let_def is_slot_def tcb_def nth_list_update)

theorem context_switch_phase1_witness:
  "is_slot demo_switch (next_task (task_list demo_switch))
   \<and> \<not> first_run demo_switch
   \<and> is_slot demo_switch (current_task (task_list demo_switch))
   \<and> map_option (current_task \<circ> task_list) (context_switch kFromISR demo_switch) = Some 1
   \<and> map_option (\<lambda>k. sp (tcb k 0)) (context_switch kFromISR demo_switch) = Some 49
   \<and> map_option (\<lambda>k. state (tcb k 1)) (context_switch kFromISR demo_switch) = Some S_RUNNING
   \<and> map_option pendsv_pending (context_switch kFromISR demo_switch) = Some True"
proof -
  have nxt: "is_slot demo_switch (next_task (task_list demo_switch))"
    by code_simp
  have later: "\<not> first_run demo_switch"
    by code_simp
  have cur: "is_slot demo_switch (current_task (task_list demo_switch))"
    by code_simp
  have vals: "next_task (task_list demo_switch) = 1" "current_task (task_list demo_switch) = 0"
    "cpu_sp demo_switch = 40"
    by (simp_all add: demo_switch_def demo_kernel_def)
  have zero: "is_slot demo_switch 0"
    by code_simp
  from context_switch_phase1 [of demo_switch kFromISR, OF nxt cur] obtain k' where
    res: "context_switch kFromISR demo_switch = Some k'"
    and a: "current_task (task_list k') = next_task (task_list demo_switch)"
    and b: "state (tcb k' (next_task (task_list demo_switch))) = S_RUNNING"
    and c: "pendsv_pending k'"
    and d: "\<forall>i. is_slot demo_switch i \<longrightarrow> sp (tcb k' i) =
          (if \<not> first_run demo_switch \<and> i = current_task (task_list demo_switch)
           then (case kFromISR of kFromNormalExec \<Rightarrow> cpu_sp demo_switch - 9
                 | kFromISR \<Rightarrow> cpu_sp demo_switch + 9)
           else sp (tcb demo_switch i))"
    by blast
  from d zero later vals have "sp (tcb k' 0) = 49"
    by simp
  with res a b c vals nxt later cur show ?thesis
    by simp
qed

text \<open>
  C7.  After a successful \<open>rtos_create_task\<close> on a build whose stacks hold the nine words
  below the top (\<open>RTOS_STACK_SIZE\<close> at least 9): the saved stack pointer of the new task
  is the address of element \<open>RTOS_STACK_SIZE - 9\<close> of its own stack, so it lies in the
  region with the eight words of the frame above it (and above the first element when the
  stack is larger than 9); the program-counter slot, \<open>STACK_PC_OFFSET\<close> below the end,
  holds the entry address, and the status slot, \<open>STACK_PSR_OFFSET\<close> below the end, holds
  \<open>STACK_PSR_DEFAULT\<close>.
\<close>

theorem create_task_initial_frame:
  fixes k :: "('w::len) word kernel"
  assumes res: "rtos_create_task cfg body prio autostart k = Some (h, k')"
    and ok: "h \<noteq> INVALID_TASK"
    and frame: "9 \<le> RTOS_STACK_SIZE cfg"
  shows "sp (tcb k' h) = stack_base cfg (nat h) + int (RTOS_STACK_SIZE cfg) - 9
     \<and> stack_base cfg (nat h) \<le> sp (tcb k' h)
     \<and> sp (tcb k' h) + 8 < stack_base cfg (nat h) + int (RTOS_STACK_SIZE cfg)
     \<and> (9 < RTOS_STACK_SIZE cfg \<longrightarrow> stack_base cfg (nat h) < sp (tcb k' h))
     \<and> RTOS_STACK_SIZE cfg \<le> length (stack (tcb k' h))
     \<and> stack (tcb k' h) ! (RTOS_STACK_SIZE cfg - 2) = body
     \<and> stack (tcb k' h) ! (RTOS_STACK_SIZE cfg - 1) = STACK_PSR_DEFAULT"
proof -
  have room: "unat (nTasks (task_list k)) < RTOS_MAX_NUMBER_OF_TASKS cfg"
  proof (rule ccontr)
    assume "\<not> unat (nTasks (task_list k)) < RTOS_MAX_NUMBER_OF_TASKS cfg"
    with res ok show False
      by (simp add: rtos_create_task_full)
  qed
  note new = rtos_create_task_Some [OF res room]
  from new(2) have inb: "nat h < length (tasks (task_list k))"
    by (rule is_slot_nat_less)
  with new(5) have t: "tcb k' h = (tcb k h)
                    \<lparr>priority := prio,
                     local_tick := 0,
                     task_body := body,
                     sp := stack_base cfg (nat h) + (int (RTOS_STACK_SIZE cfg) - 1 - STACK_FRAME_SIZE),
                     state := (if kStartSuspended = autostart then S_SUSPENDED else S_READY),
                     stack := (stack (tcb k h))
                        [RTOS_STACK_SIZE cfg - 2 := body,
                         RTOS_STACK_SIZE cfg - 1 := STACK_PSR_DEFAULT]\<rparr>"
    by (simp add: tcb_def)
  from frame new(4) show ?thesis
    by (simp add: t STACK_FRAME_SIZE_def nth_list_update)
qed

theorem create_task_initial_frame_witness:
  "9 \<le> RTOS_STACK_SIZE board3
   \<and> map_option fst (rtos_create_task board3 0x200 7 kStartSuspended demo_kernel) = Some 2
   \<and> map_option (\<lambda>(h, k). sp (tcb k h))
        (rtos_create_task board3 0x200 7 kStartSuspended demo_kernel) = Some 129
   \<and> stack_base board3 2 = 128
   \<and> map_option (\<lambda>(h, k). stack (tcb k h) ! 8)
        (rtos_create_task board3 0x200 7 kStartSuspended demo_kernel) = Some 0x200
   \<and> map_option (\<lambda>(h, k). stack (tcb k h) ! 9)
        (rtos_create_task board3 0x200 7 kStartSuspended demo_kernel) = Some 0x01000000"
proof -
  have size: "RTOS_STACK_SIZE board3 = 10"
    by (simp add: board3_def)
  have base: "stack_base board3 2 = 128"
    by (simp add: board3_def)
  have fst: "map_option fst (rtos_create_task board3 0x200 7 kStartSuspended demo_kernel) = Some 2"
    by code_simp
  then obtain k' where
    res: "rtos_create_task board3 0x200 7 kStartSuspended demo_kernel = Some (2, k')"
    by auto
  have "(2 :: int) \<noteq> INVALID_TASK"
    by (simp add: INVALID_TASK_def)
  from create_task_initial_frame [OF res this] size base
  have "sp (tcb k' 2) = 129" "stack (tcb k' 2) ! 8 = 0x200"
    "stack (tcb k' 2) ! 9 = STACK_PSR_DEFAULT"
    by simp_all
  with res fst size base show ?thesis
    by (simp add: STACK_PSR_DEFAULT_def)
qed




text \<open>
  C9.  \<open>PendSV_Handler\<close> leaves \<open>task_list\<close> as it is, whatever the state; it also leaves
  the first-switch flag and the stack pointer register alone, clears the pending bit and
  puts the saved stack pointer of the current task in r7 (through r0).  It returns
  whenever \<open>current_task\<close> indexes the array.
\<close>

theorem PendSV_Handler_frame:
  "(\<forall>k'. PendSV_Handler k = Some k' \<longrightarrow>
      task_list k' = task_list k \<and> first_run k' = first_run k \<and> cpu_sp k' = cpu_sp k
      \<and> cpu_r7 k' = sp (tcb k (current_task (task_list k))) \<and> \<not> pendsv_pending k')
   \<and> (is_slot k (current_task (task_list k)) \<longrightarrow> PendSV_Handler k \<noteq> None)"
  by (auto simp: PendSV_Handler_def Let_def is_slot_def tcb_def split: if_splits)

theorem PendSV_Handler_frame_witness:
  "is_slot demo_kernel (current_task (task_list demo_kernel))
   \<and> map_option task_list (PendSV_Handler demo_kernel) = Some (task_list demo_kernel)
   \<and> map_option cpu_r7 (PendSV_Handler demo_kernel) = Some 65"
proof -
  have slot: "is_slot demo_kernel (current_task (task_list demo_kernel))"
    by code_simp
  have saved: "sp (tcb demo_kernel (current_task (task_list demo_kernel))) = 65"
    by code_simp
  note frame = PendSV_Handler_frame [of demo_kernel]
  from frame slot have "PendSV_Handler demo_kernel \<noteq> None"
    by blast
  then obtain k' where res: "PendSV_Handler demo_kernel = Some k'"
    by blast
  with frame have "task_list k' = task_list demo_kernel"
    and "cpu_r7 k' = sp (tcb demo_kernel (current_task (task_list demo_kernel)))"
    by blast+
  with res slot saved show ?thesis
    by simp
qed

text \<open>
  C10.  For a handle that indexes the array, \<open>rtos_activate_task\<close> is the dispatcher run
  on the state in which the target has state \<open>S_READY\<close>, whatever its state was before:
  there is no test of the prior state.  Afterwards the target is \<open>S_READY\<close>, unless the
  dispatcher has just switched to it, which makes it \<open>S_RUNNING\<close>.  In the example the
  running task activates itself and ends up \<open>S_READY\<close>.
\<close>

theorem activate_unconditional:
  assumes slot: "is_slot k task"
  shows "rtos_activate_task task k
           = dispatcher kFromNormalExec
               (k\<lparr>task_list := (task_list k)
                   \<lparr>tasks := (tasks (task_list k))[nat task := (tcb k task)\<lparr>state := S_READY\<rparr>]\<rparr>\<rparr>)
     \<and> (\<forall>k'. rtos_activate_task task k = Some k' \<longrightarrow>
            state (tcb k' task)
              = (if current_task (task_list k') = task \<and> current_task (task_list k) \<noteq> task
                 then S_RUNNING else S_READY))"
proof (intro conjI allI impI)
  let ?k1 = "k\<lparr>task_list := (task_list k)
                \<lparr>tasks := (tasks (task_list k))[nat task := (tcb k task)\<lparr>state := S_READY\<rparr>]\<rparr>\<rparr>"
  from slot have u1: "tcb_update task (\<lambda>t. t\<lparr>state := S_READY\<rparr>) k = Some ?k1"
    by (simp add: tcb_update_Some tcb_def)
  then show eq: "rtos_activate_task task k = dispatcher kFromNormalExec ?k1"
    by (simp add: rtos_activate_task_def)
  fix k'
  assume "rtos_activate_task task k = Some k'"
  with eq have d: "dispatcher kFromNormalExec ?k1 = Some k'"
    by simp
  from slot have ready: "state (tcb ?k1 task) = S_READY"
    by (simp add: tcb_def is_slot_nat_less)
  from slot have slot1: "is_slot ?k1 task"
    by (simp add: is_slot_def)
  from dispatcher_Some [OF d]
  show "state (tcb k' task)
          = (if current_task (task_list k') = task \<and> current_task (task_list k) \<noteq> task
             then S_RUNNING else S_READY)"
  proof
    assume "k' = ?k1"
    with ready show ?thesis
      by auto
  next
    assume sw: "current_task (task_list k') \<noteq> current_task (task_list ?k1)
        \<and> is_slot ?k1 (current_task (task_list k'))
        \<and> length (tasks (task_list k')) = length (tasks (task_list ?k1))
        \<and> nTasks (task_list k') = nTasks (task_list ?k1)
        \<and> (\<forall>i. is_slot ?k1 i \<longrightarrow>
              state (tcb k' i)
                = (if i = current_task (task_list k') then S_RUNNING else state (tcb ?k1 i)))"
    with slot1 have "state (tcb k' task)
                = (if task = current_task (task_list k') then S_RUNNING else state (tcb ?k1 task))"
      by blast
    with ready sw show ?thesis
      by auto
  qed
qed

theorem activate_unconditional_witness:
  "is_slot demo_kernel 0
   \<and> state (tcb demo_kernel 0) = S_RUNNING
   \<and> map_option (\<lambda>k. state (tcb k 0)) (rtos_activate_task 0 demo_kernel) = Some S_READY"
proof -
  have slot: "is_slot demo_kernel 0"
    by code_simp
  have was: "state (tcb demo_kernel 0) = S_RUNNING"
    by code_simp
  have cur: "current_task (task_list demo_kernel) = 0"
    by code_simp
  have "rtos_activate_task 0 demo_kernel \<noteq> None"
    by code_simp
  then obtain k' where res: "rtos_activate_task 0 demo_kernel = Some k'"
    by blast
  with activate_unconditional [OF slot] cur have "state (tcb k' 0) = S_READY"
    by simp
  with res slot was show ?thesis
    by simp
qed

end
